theory Spec2Isabelle
  imports Main "HOL-Library.Word"
begin

unbundle bit_operations_syntax

section \<open>Method identifiers (method_id.h, marshal.h)\<close>

text \<open>
  \<^verbatim>\<open>fnv::fnv_hash\<close> walks the characters of the name. Each character is converted with
  \<^verbatim>\<open>static_cast<uint32_t>(static_cast<char>(c))\<close>. The library is written for MSVC on
  Windows (\<^verbatim>\<open>__declspec\<close>, \<^verbatim>\<open>HRESULT\<close>, WinRT sockets), where plain \<^verbatim>\<open>char\<close> is a signed
  8-bit type, so the conversion to \<^verbatim>\<open>uint32_t\<close> sign-extends: \<open>scast\<close>.
  The accumulator is a \<^verbatim>\<open>uint32_t\<close>; \<^verbatim>\<open>^=\<close> and \<^verbatim>\<open>*=\<close> wrap modulo \<open>2 ^ 32\<close>.
\<close>

type_synonym char8 = "8 word"
type_synonym uint32 = "32 word"
type_synonym method_id = "32 word"

definition prime :: uint32 where
  "prime = 16777619"

definition char_to_uint32 :: "char8 \<Rightarrow> uint32" where
  "char_to_uint32 c = scast c"

fun fnv_loop :: "uint32 \<Rightarrow> char8 list \<Rightarrow> uint32" where
  "fnv_loop val [] = val"
| "fnv_loop val (c # cs) = fnv_loop ((val XOR char_to_uint32 c) * prime) cs"

definition fnv_hash :: "char8 list \<Rightarrow> uint32" where
  "fnv_hash text = fnv_loop 2166136261 text"

definition get_method_id :: "char8 list \<Rightarrow> method_id" where
  "get_method_id name = fnv_hash name"

text \<open>
  The reference the specification names: FNV-1a over the bytes of the name, each byte an
  unsigned value 0..255, basis \<open>0x811C9DC5\<close>, prime \<open>0x01000193\<close>, XOR before multiply.
\<close>

fun fnv1a_spec_from :: "uint32 \<Rightarrow> char8 list \<Rightarrow> uint32" where
  "fnv1a_spec_from h [] = h"
| "fnv1a_spec_from h (b # bs) = fnv1a_spec_from ((h XOR ucast b) * 0x01000193) bs"

definition fnv1a_spec :: "char8 list \<Rightarrow> uint32" where
  "fnv1a_spec bs = fnv1a_spec_from 0x811C9DC5 bs"

definition is_ascii :: "char8 \<Rightarrow> bool" where
  "is_ascii c = (c < 0x80)"


section \<open>Messages (transport.h)\<close>

text \<open>
  \<^verbatim>\<open>message_header\<close> packs the call identifier into a 30-bit bit-field and the call type into
  the 2 bits beside it; \<^verbatim>\<open>method_id id\<close> follows. The fields are named \<open>call_id\<close>, \<open>ctype\<close>
  (the source's \<^verbatim>\<open>type\<close>) and \<open>mid\<close> (the source's \<^verbatim>\<open>id\<close>, a HOL constant).
  \<^verbatim>\<open>payload_t\<close> is \<^verbatim>\<open>std::vector<std::byte>\<close>; \<^verbatim>\<open>HRESULT\<close> is a 32-bit code.
\<close>

type_synonym byte = "8 word"
type_synonym payload_t = "byte list"
type_synonym hresult = "32 word"

text \<open>
  Integers are stored as their bytes in memory, little-endian on the platforms the library
  runs on: \<^verbatim>\<open>memcpy\<close> of a \<^verbatim>\<open>uint32_t\<close> or \<^verbatim>\<open>HRESULT\<close> gives \<open>le32\<close>, of a \<^verbatim>\<open>uint16_t\<close>
  \<open>le16\<close>; \<open>word_of_le\<close> reads such bytes back.
\<close>

definition le32 :: "32 word \<Rightarrow> byte list" where
  "le32 w = map (\<lambda>i. ucast (drop_bit (8 * i) w)) [0, 1, 2, 3]"

definition le16 :: "16 word \<Rightarrow> byte list" where
  "le16 w = map (\<lambda>i. ucast (drop_bit (8 * i) w)) [0, 1]"

fun word_of_le :: "byte list \<Rightarrow> 'a::len word" where
  "word_of_le [] = 0"
| "word_of_le (b # bs) = ucast b OR push_bit 8 (word_of_le bs)"

definition E_NOTIMPL :: hresult where "E_NOTIMPL = 0x80004001"
definition E_ABORT :: hresult where "E_ABORT = 0x80004004"
definition E_FAIL :: hresult where "E_FAIL = 0x80004005"
definition E_INVALIDARG :: hresult where "E_INVALIDARG = 0x80070057"

datatype call_type = request | void_request | response | response_error

record message_header =
  call_id :: "30 word"
  ctype :: call_type
  mid :: method_id

record message_t = message_header +
  payload :: payload_t

text \<open>
  \<^verbatim>\<open>message_t{ message_header{call_id, type, id}, payload }\<close> with a \<^verbatim>\<open>uint32_t\<close> call
  identifier: storing it in the 30-bit field keeps the low 30 bits (\<open>ucast\<close>).
\<close>

definition make_message :: "uint32 \<Rightarrow> call_type \<Rightarrow> method_id \<Rightarrow> payload_t \<Rightarrow> message_t" where
  "make_message cid t name p = \<lparr>call_id = ucast cid, ctype = t, mid = name, payload = p\<rparr>"

text \<open>
  The outcome of a call that may throw: it completes with a value, throws a
  \<^verbatim>\<open>corsl::hresult_error\<close> carrying a code, or throws anything else (the \<^verbatim>\<open>catch (...)\<close> arm).
\<close>

datatype 'a outcome = Completes 'a | Throws_hresult hresult | Throws_other

fun bind_outcome :: "'a outcome \<Rightarrow> ('a \<Rightarrow> 'b outcome) \<Rightarrow> 'b outcome" where
  "bind_outcome (Completes x) f = f x"
| "bind_outcome (Throws_hresult e) f = Throws_hresult e"
| "bind_outcome Throws_other f = Throws_other"

section \<open>Server marshaller (marshal.h)\<close>

text \<open>
  A described interface is the list of its public members in declaration order. Each member,
  a \<^verbatim>\<open>method<R(Args...)>\<close> (the record \<open>method_descriptor\<close>), has a name, a result type that is \<^verbatim>\<open>void\<close>,
  \<^verbatim>\<open>future<void>\<close> or \<^verbatim>\<open>future<R>\<close>, and three operations that the templates
  instantiate at the method's own types: \<^verbatim>\<open>Reader{data, state} >> tuple\<close> at
  \<^verbatim>\<open>stored_args_t\<close>, \<^verbatim>\<open>std::apply(implementation.*M::pointer, tuple)\<close> (awaited when it returns a
  future), and \<^verbatim>\<open>create_writer_on_with_state(data, state, result).get()\<close> on the cleared buffer.
\<close>

datatype result_shape = Void | Future_void | Future_value

record ('a, 'r) method_descriptor =
  m_name :: "char8 list"
  result_type :: result_shape
  read_args :: "payload_t \<Rightarrow> 'a outcome"
  invoke :: "'a \<Rightarrow> 'r outcome"
  write_result :: "'r \<Rightarrow> payload_t"

record method_map_entry =
  name :: method_id
  ordinal :: nat

text \<open>
  \<^verbatim>\<open>build_method_map\<close>: entry \<open>ord\<close> is \<open>(get_method_id<M>(), ord)\<close>, then the array is sorted
  by name. \<^verbatim>\<open>std::ranges::sort\<close> does not promise an order among equal keys; \<open>sort_key\<close>
  is one of the orders it may produce, and the only one when the identifiers are distinct.
\<close>

fun number_methods :: "nat \<Rightarrow> ('a, 'r) method_descriptor list \<Rightarrow> method_map_entry list" where
  "number_methods ord [] = []"
| "number_methods ord (M # Ms) =
     \<lparr>name = get_method_id (m_name M), ordinal = ord\<rparr> # number_methods (Suc ord) Ms"

definition build_method_map :: "('a, 'r) method_descriptor list \<Rightarrow> method_map_entry list" where
  "build_method_map Methods = sort_key name (number_methods 0 Methods)"

text \<open>
  \<^verbatim>\<open>std::ranges::lower_bound(static_method_map, name, less, proj)\<close>: binary search for the
  first position whose key is not less than \<open>key\<close>, halving the remaining count.
\<close>

function lower_bound_from :: "method_map_entry list \<Rightarrow> method_id \<Rightarrow> nat \<Rightarrow> nat \<Rightarrow> nat" where
  "lower_bound_from tbl key first count =
     (if count = 0 then first
      else let half = count div 2; middle = first + half
           in if name (tbl ! middle) < key
              then lower_bound_from tbl key (Suc middle) (count - half - 1)
              else lower_bound_from tbl key first half)"
  by pat_completeness auto
termination
  by (relation "measure (\<lambda>(tbl, key, first, count). count)") auto

definition lower_bound :: "method_map_entry list \<Rightarrow> method_id \<Rightarrow> nat" where
  "lower_bound tbl key = lower_bound_from tbl key 0 (length tbl)"

text \<open>
  The test of \<^verbatim>\<open>dispatch\<close> and \<^verbatim>\<open>void_dispatch\<close>:
  \<^verbatim>\<open>it != static_method_map.end() && it->name == name\<close>. The result is the entry's ordinal.
\<close>

definition find_method :: "method_map_entry list \<Rightarrow> method_id \<Rightarrow> nat option" where
  "find_method tbl key =
     (let it = lower_bound tbl key
      in if it \<noteq> length tbl \<and> name (tbl ! it) = key then Some (ordinal (tbl ! it)) else None)"

text \<open>
  The body that \<^verbatim>\<open>dispatch\<close> runs for the method at the found ordinal: the argument tuple is
  decoded first; a method returning a future is invoked and awaited, and the reply payload
  is empty for \<^verbatim>\<open>future<void>\<close> and the encoded result otherwise; for a \<^verbatim>\<open>void\<close> method the
  \<^verbatim>\<open>else\<close> branch returns an empty payload and does not call the implementation.
\<close>

definition dispatch_method :: "('a, 'r) method_descriptor \<Rightarrow> payload_t \<Rightarrow> payload_t outcome" where
  "dispatch_method M data =
     bind_outcome (read_args M data) (\<lambda>tuple.
       case result_type M of
         Future_void \<Rightarrow> bind_outcome (invoke M tuple) (\<lambda>_. Completes [])
       | Future_value \<Rightarrow> bind_outcome (invoke M tuple) (\<lambda>result. Completes (write_result M result))
       | Void \<Rightarrow> Completes [])"

definition dispatch :: "('a, 'r) method_descriptor list \<Rightarrow> method_id \<Rightarrow> payload_t \<Rightarrow> payload_t outcome" where
  "dispatch Methods key data =
     (case find_method (build_method_map Methods) key of
        Some ord \<Rightarrow> dispatch_method (Methods ! ord) data
      | None \<Rightarrow> Throws_hresult E_NOTIMPL)"

text \<open>
  \<^verbatim>\<open>void_dispatch\<close>: only a \<^verbatim>\<open>void\<close> method is decoded and called; for any other method the
  lambda body is empty.
\<close>

definition void_dispatch_method :: "('a, 'r) method_descriptor \<Rightarrow> payload_t \<Rightarrow> unit outcome" where
  "void_dispatch_method M data =
     (case result_type M of
        Void \<Rightarrow> bind_outcome (read_args M data) (\<lambda>tuple.
                  bind_outcome (invoke M tuple) (\<lambda>_. Completes ()))
      | _ \<Rightarrow> Completes ())"

definition void_dispatch :: "('a, 'r) method_descriptor list \<Rightarrow> method_id \<Rightarrow> payload_t \<Rightarrow> unit outcome" where
  "void_dispatch Methods key data =
     (case find_method (build_method_map Methods) key of
        Some ord \<Rightarrow> void_dispatch_method (Methods ! ord) data
      | None \<Rightarrow> Throws_hresult E_NOTIMPL)"

text \<open>
  What the specification says of dispatch, in its own words (section 4.E): look the
  identifier up; if absent fail with NotImplemented; otherwise decode the stored-arguments
  tuple of that method, invoke the implementation's callable with it, and return the
  encoded result for an async-value method and an empty payload otherwise.
\<close>

definition method_ids :: "('a, 'r) method_descriptor list \<Rightarrow> method_id list" where
  "method_ids Methods = map (\<lambda>M. get_method_id (m_name M)) Methods"

definition invoke_spec :: "('a, 'r) method_descriptor \<Rightarrow> payload_t \<Rightarrow> payload_t outcome" where
  "invoke_spec M data =
     bind_outcome (read_args M data) (\<lambda>tuple.
       bind_outcome (invoke M tuple) (\<lambda>result.
         Completes (case result_type M of Future_value \<Rightarrow> write_result M result | _ \<Rightarrow> [])))"

definition dispatch_spec :: "('a, 'r) method_descriptor list \<Rightarrow> method_id \<Rightarrow> payload_t \<Rightarrow> payload_t outcome" where
  "dispatch_spec Methods key data =
     (case find (\<lambda>M. get_method_id (m_name M) = key) Methods of
        None \<Rightarrow> Throws_hresult E_NOTIMPL
      | Some M \<Rightarrow> invoke_spec M data)"

section \<open>Connection (connection.h)\<close>

text \<open>
  The connection is modelled sequentially: each member function, and each iteration of the
  reader and writer loops, is one atomic step on the record below. What runs on other
  threads (transport I/O, the awaited user implementation) enters a step as an argument.

  The cancellation source, promises and queues come from the corsl library, which is not
  part of the repository. A \<^verbatim>\<open>cancellation_source\<close> is the flag \<open>cancel\<close>;
  \<^verbatim>\<open>cancel = {}\<close> installs a fresh source, not cancelled. A \<^verbatim>\<open>promise<payload_t>\<close> lives in
  the frame of the \<^verbatim>\<open>do_call\<close> that created it; \<open>next_promise\<close> hands out their identities
  and \<open>settled\<close> records, per promise, every completion delivered to it, in order.
  An \<^verbatim>\<open>async_queue\<close> is the list of the messages pushed and not yet taken.
  \<open>ndebug\<close> is the build configuration: \<^verbatim>\<open>assert\<close> is compiled out when it holds.
\<close>

datatype captured_on = on_send | on_receive | on_stop

datatype failure = Operation_cancelled | Hresult_error hresult | Assertion_failed

datatype completion = Value payload_t | Exception failure

type_synonym promise = nat

record connection =
  ndebug :: bool
  cancel :: bool
  transport :: bool
  write_queue :: "message_t list"
  completions :: "(uint32 \<times> promise) list"
  error_handler :: bool
  handler_calls :: "(hresult \<times> captured_on) list"
  last_error :: "(hresult \<times> captured_on) option"
  last_call_id :: uint32
  running :: bool
  settled :: "promise \<Rightarrow> completion list"
  next_promise :: promise

definition initial :: "bool \<Rightarrow> connection" where
  "initial nd = \<lparr>ndebug = nd, cancel = False, transport = False, write_queue = [],
     completions = [], error_handler = False, handler_calls = [], last_error = None,
     last_call_id = 0, running = False, settled = (\<lambda>_. []), next_promise = 0\<rparr>"

text \<open>
  \<^verbatim>\<open>error_on_background\<close>: an installed handler is taken out and called once; without one
  the error is kept in \<^verbatim>\<open>last_error\<close>.
\<close>

definition error_on_background :: "hresult \<Rightarrow> captured_on \<Rightarrow> connection \<Rightarrow> connection" where
  "error_on_background hr on s =
     (if error_handler s
      then s\<lparr>error_handler := False, handler_calls := handler_calls s @ [(hr, on)]\<rparr>
      else s\<lparr>last_error := Some (hr, on)\<rparr>)"

definition push :: "message_t \<Rightarrow> connection \<Rightarrow> connection" where
  "push m s = s\<lparr>write_queue := write_queue s @ [m]\<rparr>"

text \<open>
  \<^verbatim>\<open>std::map<uint32_t, promise *>\<close>: an association list kept in key order.
  \<^verbatim>\<open>emplace\<close> leaves the map unchanged when the key is present.
\<close>

definition emplace :: "uint32 \<Rightarrow> promise \<Rightarrow> (uint32 \<times> promise) list \<Rightarrow> (uint32 \<times> promise) list" where
  "emplace k p cs = (if k \<in> fst ` set cs then cs else insort_key fst (k, p) cs)"

definition erase :: "uint32 \<Rightarrow> (uint32 \<times> promise) list \<Rightarrow> (uint32 \<times> promise) list" where
  "erase k cs = filter (\<lambda>e. fst e \<noteq> k) cs"

definition settle :: "promise \<Rightarrow> completion \<Rightarrow> connection \<Rightarrow> connection" where
  "settle p c s = s\<lparr>settled := (settled s)(p := settled s p @ [c])\<rparr>"

text \<open>\<^verbatim>\<open>start\<close>: the transport is installed, the reader and writer tasks begin, \<^verbatim>\<open>running\<close> is set.\<close>

definition start :: "connection \<Rightarrow> failure + connection" where
  "start s =
     (if \<not> ndebug s \<and> transport s then Inl Assertion_failed
      else Inr (s\<lparr>transport := True, running := True\<rparr>))"

text \<open>
  \<^verbatim>\<open>stop\<close>: under \<^verbatim>\<open>running\<close>, report \<^verbatim>\<open>E_ABORT\<close>, cancel, join both tasks, fail every
  promise still in \<^verbatim>\<open>completions\<close> with \<^verbatim>\<open>operation_cancelled\<close>, clear the table, release the
  transport, install a fresh cancellation source, clear \<^verbatim>\<open>running\<close>.
\<close>

fun cancel_all :: "(uint32 \<times> promise) list \<Rightarrow> connection \<Rightarrow> connection" where
  "cancel_all [] s = s"
| "cancel_all (p # ps) s = cancel_all ps (settle (snd p) (Exception Operation_cancelled) s)"

definition stop :: "connection \<Rightarrow> connection" where
  "stop s =
     (if running s
      then let s1 = error_on_background E_ABORT on_stop s;
               s2 = s1\<lparr>cancel := True\<rparr>;
               s3 = cancel_all (completions s2) s2;
               s4 = s3\<lparr>completions := []\<rparr>
           in s4\<lparr>transport := False, cancel := False, running := False\<rparr>
      else s)"

text \<open>
  \<^verbatim>\<open>do_call\<close>: acquiring the cancellation token on a cancelled source raises
  \<^verbatim>\<open>operation_cancelled\<close> (the comment in \<^verbatim>\<open>stop\<close>: cancelling "will also prevent all future
  calls from being made through this connection"). Otherwise the 32-bit counter is read and
  incremented, the promise is registered under the 32-bit value, and a request is pushed
  whose header keeps the low 30 bits. The result is the promise the caller then awaits.
\<close>

definition do_call :: "method_id \<Rightarrow> payload_t \<Rightarrow> connection \<Rightarrow> failure + (promise \<times> connection)" where
  "do_call nm p s =
     (if \<not> ndebug s \<and> \<not> transport s then Inl Assertion_failed
      else if cancel s then Inl Operation_cancelled
      else let cid = last_call_id s;
               pr = next_promise s;
               s1 = s\<lparr>last_call_id := cid + 1, next_promise := Suc pr\<rparr>;
               s2 = s1\<lparr>completions := emplace cid pr (completions s1)\<rparr>
           in Inr (pr, push (make_message cid request nm p) s2))"

definition do_void_call :: "method_id \<Rightarrow> payload_t \<Rightarrow> connection \<Rightarrow> failure + connection" where
  "do_void_call nm p s =
     (if \<not> ndebug s \<and> \<not> transport s then Inl Assertion_failed
      else if cancel s then Inl Operation_cancelled
      else let cid = last_call_id s;
               s1 = s\<lparr>last_call_id := cid + 1\<rparr>
           in Inr (push (make_message cid void_request nm p) s1))"

text \<open>
  The reader, on a \<^verbatim>\<open>response\<close> or \<^verbatim>\<open>response_error\<close>: \<^verbatim>\<open>completions.find(message.call_id)\<close>
  looks the 30-bit field up as a \<^verbatim>\<open>uint32_t\<close> key; a found entry is erased and its promise
  completed with the payload, or with the \<^verbatim>\<open>HRESULT\<close> read from a 4-byte payload, or with
  \<^verbatim>\<open>E_FAIL\<close>. The entries are never null, so the test \<^verbatim>\<open>if (promise)\<close> always passes.
\<close>

definition reply_completion :: "message_t \<Rightarrow> completion" where
  "reply_completion m =
     (if ctype m = response_error
      then (if length (payload m) = 4
            then Exception (Hresult_error (word_of_le (payload m)))
            else Exception (Hresult_error E_FAIL))
      else Value (payload m))"

definition on_reply :: "message_t \<Rightarrow> connection \<Rightarrow> connection" where
  "on_reply m s =
     (case map_of (completions s) (ucast (call_id m)) of
        None \<Rightarrow> s
      | Some pr \<Rightarrow>
          settle pr (reply_completion m)
            (s\<lparr>completions := erase (ucast (call_id m)) (completions s)\<rparr>))"

text \<open>
  \<^verbatim>\<open>execute_request\<close>. The server marshaller is \<open>Some Methods\<close> when the connection has one
  (\<^verbatim>\<open>has_server\<close>). \<^verbatim>\<open>outstanding_requests\<close> and \<^verbatim>\<open>finished\<close> are locals of the reader, passed
  by reference. In the non-void branch the token is acquired before \<^verbatim>\<open>dispatch\<close>; on a
  cancelled source that raises \<^verbatim>\<open>operation_cancelled\<close>, an \<^verbatim>\<open>hresult_error\<close> with code
  \<open>0x800704C7\<close>. After the \<^verbatim>\<open>try\<close> block the function goes on to the block that sends
  \<^verbatim>\<open>response_error\<close>, guarded only by the cancellation flag and the message type.
\<close>

record reader_frame =
  outstanding_requests :: int
  finished :: bool

definition E_CANCELLED :: hresult where "E_CANCELLED = 0x800704C7"

definition hr_of_outcome :: "'a outcome \<Rightarrow> hresult" where
  "hr_of_outcome r = (case r of Completes _ \<Rightarrow> 0 | Throws_hresult e \<Rightarrow> e | Throws_other \<Rightarrow> E_FAIL)"

definition reply_to :: "message_t \<Rightarrow> call_type \<Rightarrow> payload_t \<Rightarrow> message_t" where
  "reply_to m t p = \<lparr>call_id = call_id m, ctype = t, mid = mid m, payload = p\<rparr>"

definition execute_request ::
  "('a, 'r) method_descriptor list option \<Rightarrow> message_t \<Rightarrow> connection \<times> reader_frame \<Rightarrow> connection \<times> reader_frame" where
  "execute_request server message st =
     (let s = fst st; fr = snd st;
          (hr, pending, s1, fr1) =
            (case server of
               Some Methods \<Rightarrow>
                 if ctype message = void_request
                 then (hr_of_outcome (void_dispatch Methods (mid message) (payload message)),
                       False, s, fr)
                 else
                   let fr' = fr\<lparr>outstanding_requests := outstanding_requests fr + 1\<rparr>;
                       r = (if cancel s then Throws_hresult E_CANCELLED
                            else dispatch Methods (mid message) (payload message))
                   in (case r of
                         Completes result \<Rightarrow> (0, True, push (reply_to message response result) s, fr')
                       | _ \<Rightarrow> (hr_of_outcome r, True, s, fr'))
             | None \<Rightarrow> (E_INVALIDARG, False, s, fr));
          s2 = (if \<not> cancel s1
                then (if ctype message \<noteq> void_request
                      then push (reply_to message response_error (le32 hr)) s1
                      else s1)
                else s1);
          fr2 = (if pending
                 then fr1\<lparr>outstanding_requests := outstanding_requests fr1 - 1,
                          finished := (finished fr1 \<or> outstanding_requests fr1 = 1)\<rparr>
                 else fr1)
      in (s2, fr2))"

text \<open>
  One iteration of the reader loop: \<^verbatim>\<open>transport->read()\<close> gives a message or throws an
  \<^verbatim>\<open>hresult_error\<close>, which cancels the connection and is reported as \<^verbatim>\<open>captured_on::receive\<close>.
\<close>

definition reader_step ::
  "('a, 'r) method_descriptor list option \<Rightarrow> hresult + message_t \<Rightarrow> connection \<times> reader_frame \<Rightarrow> connection \<times> reader_frame" where
  "reader_step server rd st =
     (case rd of
        Inl e \<Rightarrow> (error_on_background e on_receive ((fst st)\<lparr>cancel := True\<rparr>), snd st)
      | Inr message \<Rightarrow>
          if ctype message = response \<or> ctype message = response_error
          then (on_reply message (fst st), snd st)
          else execute_request server message st)"

text \<open>
  One iteration of the writer loop: the oldest message leaves the queue and goes to
  \<^verbatim>\<open>transport->write\<close>; a failure cancels the connection and is reported as
  \<^verbatim>\<open>captured_on::send\<close>.
\<close>

definition writer_step :: "hresult option \<Rightarrow> connection \<Rightarrow> connection" where
  "writer_step wr s =
     (case write_queue s of
        [] \<Rightarrow> s
      | m # ms \<Rightarrow>
          (case wr of
             None \<Rightarrow> s\<lparr>write_queue := ms\<rparr>
           | Some e \<Rightarrow> error_on_background e on_send (s\<lparr>write_queue := ms, cancel := True\<rparr>)))"

text \<open>
  \<^verbatim>\<open>on_error(f)\<close>: an error captured earlier is handed to \<open>f\<close> at once; otherwise \<open>f\<close> is
  installed.
\<close>

definition on_error :: "connection \<Rightarrow> connection" where
  "on_error s =
     (case last_error s of
        Some err \<Rightarrow> s\<lparr>last_error := None, handler_calls := handler_calls s @ [err]\<rparr>
      | None \<Rightarrow> s\<lparr>error_handler := True\<rparr>)"

text \<open>
  The states a connection with a given marshaller configuration can be in: whatever the
  public functions and the two loops make of the initial state. The loops are allowed a
  step in every state, also where the real tasks have ended, so the set is, if anything,
  larger than what the program reaches.
\<close>

inductive reachable :: "('a, 'r) method_descriptor list option \<Rightarrow> connection \<Rightarrow> bool"
  for server :: "('a, 'r) method_descriptor list option" where
  r_initial: "reachable server (initial nd)"
| r_start: "reachable server s \<Longrightarrow> start s = Inr s' \<Longrightarrow> reachable server s'"
| r_stop: "reachable server s \<Longrightarrow> reachable server (stop s)"
| r_call: "reachable server s \<Longrightarrow> do_call nm p s = Inr (pr, s') \<Longrightarrow> reachable server s'"
| r_void_call: "reachable server s \<Longrightarrow> do_void_call nm p s = Inr s' \<Longrightarrow> reachable server s'"
| r_reader: "reachable server s \<Longrightarrow> reader_step server rd (s, fr) = (s', fr') \<Longrightarrow> reachable server s'"
| r_writer: "reachable server s \<Longrightarrow> reachable server (writer_step wr s)"
| r_on_error: "reachable server s \<Longrightarrow> reachable server (on_error s)"

text \<open>
  The invariant of the pending-call table: keys are distinct, every entry has a promise of
  its own, and a registered promise, like one not yet created, has received nothing.
\<close>

definition table_ok :: "connection \<Rightarrow> bool" where
  "table_ok s \<longleftrightarrow>
     distinct (map fst (completions s)) \<and>
     distinct (map snd (completions s)) \<and>
     (\<forall>p \<in> snd ` set (completions s). p < next_promise s \<and> settled s p = []) \<and>
     (\<forall>p. next_promise s \<le> p \<longrightarrow> settled s p = [])"

subsection \<open>Concrete inputs\<close>

text \<open>
  A connection right after \<^verbatim>\<open>start\<close> (\<open>started True\<close> in a release build, \<open>started False\<close>
  in a debug build), and \<open>n\<close> fire-and-forget calls in a row, which advance the counter.
\<close>

definition started :: "bool \<Rightarrow> connection" where
  "started nd = (initial nd)\<lparr>transport := True, running := True\<rparr>"

fun void_calls :: "nat \<Rightarrow> connection \<Rightarrow> failure + connection" where
  "void_calls 0 s = Inr s"
| "void_calls (Suc n) s =
     (case do_void_call 0 [] s of Inl e \<Rightarrow> Inl e | Inr s' \<Rightarrow> void_calls n s')"

text \<open>
  Two methods of the sample interface, over 32-bit integers: \<^verbatim>\<open>simple_sum(int, int)\<close> returning
  \<^verbatim>\<open>future<int>\<close>, whose arguments and result are 4 little-endian bytes each, and the
  fire-and-forget \<^verbatim>\<open>send_telemetry\<close>, given here an implementation that throws \<^verbatim>\<open>E_FAIL\<close>.
\<close>

definition simple_sum :: "(uint32 \<times> uint32, uint32) method_descriptor" where
  "simple_sum = \<lparr>
     m_name = [0x73, 0x69, 0x6D, 0x70, 0x6C, 0x65, 0x5F, 0x73, 0x75, 0x6D],
     result_type = Future_value,
     read_args = (\<lambda>d. Completes (word_of_le (take 4 d), word_of_le (take 4 (drop 4 d)))),
     invoke = (\<lambda>(a, b). Completes (a + b)),
     write_result = le32\<rparr>"

definition send_telemetry :: "(uint32 \<times> uint32, uint32) method_descriptor" where
  "send_telemetry = \<lparr>
     m_name = [0x73, 0x65, 0x6E, 0x64, 0x5F, 0x74, 0x65, 0x6C, 0x65, 0x6D, 0x65, 0x74, 0x72, 0x79],
     result_type = Void,
     read_args = (\<lambda>d. Completes (0, 0)),
     invoke = (\<lambda>_. Throws_hresult E_FAIL),
     write_result = le32\<rparr>"

definition sum_request :: message_t where
  "sum_request = make_message 7 request (get_method_id (m_name simple_sum)) (le32 17 @ le32 42)"


definition reader_frame0 :: reader_frame where
  "reader_frame0 = \<lparr>outstanding_requests = 1, finished = False\<rparr>"

section \<open>Serializer (serializer.h)\<close>

text \<open>
  The codec is a family of overloads chosen by the static type of the value. The types it
  is instantiated at are described by \<open>ty\<close>, the values by \<open>val\<close>:
  \<^item> \<open>TTrivial n\<close>: a trivially copyable type of size \<open>n\<close> that is not a range (fixed-width
    integers, floating-point numbers, \<^verbatim>\<open>bool\<close>, enumerations, plain structs); the value is its
    object representation, the \<open>n\<close> bytes that \<^verbatim>\<open>add(&val, sizeof(val))\<close> copies;
  \<^item> \<open>TBulk n\<close>: a resizable contiguous range of trivially copyable elements of size \<open>n\<close>
    (\<^verbatim>\<open>std::basic_string\<close>, a string view on the writing side, \<^verbatim>\<open>std::vector<int>\<close>), copied
    as one block;
  \<^item> \<open>TArray N n\<close>: a contiguous range of \<open>N\<close> trivially copyable elements without
    \<^verbatim>\<open>resize\<close> (\<^verbatim>\<open>std::array\<close>, \<^verbatim>\<open>std::span\<close>);
  \<^item> \<open>TScattered n\<close>: a resizable range of trivially copyable elements of size \<open>n\<close>,
    each stored in a node of its own (\<^verbatim>\<open>std::list<int>\<close>). The codec takes the same overloads
    as for \<open>TBulk\<close>, chosen by \<^verbatim>\<open>std::is_trivially_copyable<value_type>\<close> alone, whatever
    the layout of the range;
  \<^item> \<open>TSeq t\<close>: a range of elements that are not trivially copyable, read back with
    \<^verbatim>\<open>emplace_back\<close>;
  \<^item> \<open>TOptional t d\<close>: \<^verbatim>\<open>std::optional\<close> over \<open>t\<close>. The reader is handed an object that
    exists already, and \<open>d\<close> is what that optional holds when it is constructed: \<open>None\<close>,
    empty, for every optional except a member of an aggregate that a default member
    initializer engages (\<^verbatim>\<open>struct S { std::optional<int> x = 5; }\<close>), where it is \<open>Some\<close> of
    that value;
  \<^item> \<open>TExpected\<close>, \<open>TPair\<close>, \<open>TTuple\<close>, \<open>TVariant\<close>: the standard templates;
  \<^item> \<open>TDescribed ts\<close>: an aggregate described with Boost.Describe, or decomposed by the
    structural reflection fallback, with members of types \<open>ts\<close> in declaration order.
  A variant type has at most \<open>2 ^ 16\<close> alternatives, so that the index fits the
  \<^verbatim>\<open>uint16_t\<close> the writer casts it to; this is part of \<open>has_type\<close>. Containers filled with
  \<^verbatim>\<open>insert\<close> (sets and maps) are not described.
\<close>

datatype val =
  VTrivial "byte list"
| VBulk "byte list list"
| VArray "byte list list"
| VScattered "byte list list"
| VSeq "val list"
| VNullopt
| VSome val
| VHas val
| VUnexpected val
| VPair val val
| VTuple "val list"
| VVariant nat val
| VDescribed "val list"

datatype ty =
  TTrivial nat
| TBulk nat
| TArray nat nat
| TScattered nat
| TSeq ty
| TOptional ty "val option"
| TExpected ty ty
| TPair ty ty
| TTuple "ty list"
| TVariant "ty list"
| TDescribed "ty list"


subsection \<open>Writer\<close>





subsection \<open>Reader\<close>

text \<open>
  \<^verbatim>\<open>Reader<State>\<close> holds the span \<open>range\<close> it was given and the cursor \<open>it\<close>, here an index
  into the span. The primitive \<^verbatim>\<open>read(destination, size)\<close> is
  \<^verbatim>\<open>std::copy(it, it + size, destination); it += size\<close>, with no comparison against the end
  of the span. What lies in memory behind the span is not the reader's to choose: it is the
  field \<open>beyond\<close>, and \<open>memory\<close> is the span followed by it.

  \<^verbatim>\<open>get_remaining\<close> is \<^verbatim>\<open>std::span{ it, range.end() }\<close>: the bytes from the cursor on,
  \<^verbatim>\<open>range.end() - it\<close> of them as a \<^verbatim>\<open>size_t\<close>. With the cursor past the end the difference
  is negative and the size wraps round (modulo \<open>2 ^ 64\<close>, the library's 64-bit build), so
  the span runs on through the memory behind the payload.
\<close>

record 's reader =
  range :: "byte list"
  beyond :: "nat \<Rightarrow> byte"
  it :: nat
  reader_state :: 's

definition make_reader :: "byte list \<Rightarrow> (nat \<Rightarrow> byte) \<Rightarrow> 's \<Rightarrow> 's reader" where
  "make_reader data mem S = \<lparr>range = data, beyond = mem, it = 0, reader_state = S\<rparr>"

definition memory :: "'s reader \<Rightarrow> nat \<Rightarrow> byte" where
  "memory r i = (if i < length (range r) then range r ! i else beyond r (i - length (range r)))"

definition read_raw :: "nat \<Rightarrow> 's reader \<Rightarrow> byte list \<times> 's reader" where
  "read_raw n r = (map (memory r) [it r ..< it r + n], r\<lparr>it := it r + n\<rparr>)"

definition get_remaining :: "'s reader \<Rightarrow> byte list" where
  "get_remaining r =
     map (memory r)
       [it r ..< it r + nat ((int (length (range r)) - int (it r)) mod 2 ^ 64)]"

text \<open>
  The part of the span that lies ahead of the cursor, empty when the cursor is at the end
  or past it. This is a notion of the verification, not a function of the library.
\<close>

definition unread :: "'s reader \<Rightarrow> byte list" where
  "unread r = drop (it r) (range r)"

text \<open>
  The result of decoding: a value and the advanced reader; an exception (none of the
  built-in overloads throws one; a user hook may); or behaviour that C++ leaves undefined.
  \<^verbatim>\<open>boost::mp11::mp_with_index<N>(i, f)\<close> requires \<open>i < N\<close>: it asserts it in a debug build and
  marks the default case of its switch unreachable otherwise.
\<close>

datatype 'a read_result = Done 'a | Raised hresult | Undefined

fun bind_read :: "'a read_result \<Rightarrow> ('a \<Rightarrow> 'b read_result) \<Rightarrow> 'b read_result" where
  "bind_read (Done x) f = f x"
| "bind_read (Raised e) f = Raised e"
| "bind_read Undefined f = Undefined"

definition read_uint32 :: "'s reader \<Rightarrow> uint32 \<times> 's reader" where
  "read_uint32 r = (let (bs, r') = read_raw 4 r in (word_of_le bs, r'))"

definition read_uint16 :: "'s reader \<Rightarrow> 16 word \<times> 's reader" where
  "read_uint16 r = (let (bs, r') = read_raw 2 r in (word_of_le bs, r'))"

definition read_bool :: "'s reader \<Rightarrow> bool \<times> 's reader" where
  "read_bool r = (let (bs, r') = read_raw 1 r in (hd bs \<noteq> 0, r'))"

text \<open>The elements of a block of \<open>count\<close> elements of \<open>n\<close> bytes each.\<close>

fun chop :: "nat \<Rightarrow> nat \<Rightarrow> byte list \<Rightarrow> byte list list" where
  "chop n 0 bs = []"
| "chop n (Suc count) bs = take n bs # chop n count (drop n bs)"

text \<open>
  \<open>read t\<close> decodes into a freshly constructed object of type \<open>t\<close>, as every caller in the
  library does (\<^verbatim>\<open>R result;\<close>, \<^verbatim>\<open>stored_args_t tuple;\<close>, \<^verbatim>\<open>value_type v;\<close>, \<^verbatim>\<open>T result;\<close>).
  \<^verbatim>\<open>read(std::optional<T> &)\<close> has no \<^verbatim>\<open>else\<close>: when the flag is false the optional is left
  as it was constructed, which is \<open>d\<close>. For \<open>TScattered\<close> the reader resizes the range to
  \<open>count\<close> elements and copies \<open>n * count\<close> bytes to the address of the first: with two or
  more elements the copy runs past the first element into memory that is not the range's,
  a write outside the object, which C++ leaves undefined. \<open>read_fields\<close> is the fold over
  tuple or described members, \<open>read_elems\<close> the loop \<^verbatim>\<open>while (count--)\<close>, \<open>read_alt\<close> the
  switch of \<^verbatim>\<open>mp_with_index\<close> over the alternatives.
\<close>

fun read :: "ty \<Rightarrow> 's reader \<Rightarrow> (val \<times> 's reader) read_result"
  and read_fields :: "ty list \<Rightarrow> 's reader \<Rightarrow> (val list \<times> 's reader) read_result"
  and read_elems :: "ty \<Rightarrow> nat \<Rightarrow> 's reader \<Rightarrow> (val list \<times> 's reader) read_result"
  and read_alt :: "ty list \<Rightarrow> nat \<Rightarrow> 's reader \<Rightarrow> (val \<times> 's reader) read_result" where
  "read (TTrivial n) r = (let (bs, r1) = read_raw n r in Done (VTrivial bs, r1))"
| "read (TBulk n) r =
     (let (count, r1) = read_uint32 r;
          (bs, r2) = read_raw (n * unat count) r1
      in Done (VBulk (chop n (unat count) bs), r2))"
| "read (TArray N n) r =
     (let (count, r1) = read_uint32 r;
          (bs, r2) = read_raw (n * N) r1
      in Done (VArray (chop n N bs), r2))"
| "read (TScattered n) r =
     (let (count, r1) = read_uint32 r
      in if unat count \<le> 1
         then (let (bs, r2) = read_raw (n * unat count) r1
               in Done (VScattered (chop n (unat count) bs), r2))
         else Undefined)"
| "read (TSeq t) r =
     (let (count, r1) = read_uint32 r
      in bind_read (read_elems t (unat count) r1) (\<lambda>(vs, r2). Done (VSeq vs, r2)))"
| "read (TOptional t d) r =
     (let (present, r1) = read_bool r
      in if present then bind_read (read t r1) (\<lambda>(v, r2). Done (VSome v, r2))
         else Done (case d of None \<Rightarrow> VNullopt | Some x \<Rightarrow> VSome x, r1))"
| "read (TExpected t e) r =
     (let (present, r1) = read_bool r
      in if present then bind_read (read t r1) (\<lambda>(v, r2). Done (VHas v, r2))
         else bind_read (read e r1) (\<lambda>(x, r2). Done (VUnexpected x, r2)))"
| "read (TPair ta tb) r =
     bind_read (read ta r) (\<lambda>(a, r1).
       bind_read (read tb r1) (\<lambda>(b, r2). Done (VPair a b, r2)))"
| "read (TTuple ts) r = bind_read (read_fields ts r) (\<lambda>(vs, r1). Done (VTuple vs, r1))"
| "read (TDescribed ts) r = bind_read (read_fields ts r) (\<lambda>(vs, r1). Done (VDescribed vs, r1))"
| "read (TVariant ts) r =
     (let (index, r1) = read_uint16 r
      in bind_read (read_alt ts (unat index) r1) (\<lambda>(v, r2). Done (VVariant (unat index) v, r2)))"
| "read_fields [] r = Done ([], r)"
| "read_fields (t # ts) r =
     bind_read (read t r) (\<lambda>(v, r1).
       bind_read (read_fields ts r1) (\<lambda>(vs, r2). Done (v # vs, r2)))"
| "read_elems t 0 r = Done ([], r)"
| "read_elems t (Suc count) r =
     bind_read (read t r) (\<lambda>(v, r1).
       bind_read (read_elems t count r1) (\<lambda>(vs, r2). Done (v # vs, r2)))"
| "read_alt [] i r = Undefined"
| "read_alt (t # ts) 0 r = read t r"
| "read_alt (t # ts) (Suc j) r = read_alt ts j r"




section \<open>Method identifiers: results\<close>

lemma scast_ascii_eq_ucast:
  fixes c :: char8
  assumes "c < 0x80"
  shows "(scast c :: uint32) = ucast c"
proof -
  from assms have "take_bit 7 c = c"
    by (simp add: take_bit_eq_mask less_mask_eq)
  then have "bit c 7 = bit (take_bit 7 c) 7" by simp
  then have nb: "\<not> bit c 7"
    by (simp only: bit_take_bit_iff) simp
  have hi: "\<not> bit c n" if "7 \<le> n" for n
  proof (cases "n = 7")
    case True
    then show ?thesis using nb by simp
  next
    case False
    with that have "8 \<le> n" by simp
    then show ?thesis using bit_imp_le_length [of c n] by auto
  qed
  show ?thesis
    by (rule bit_word_eqI) (auto simp add: bit_simps min_def hi)
qed

lemma fnv_loop_ascii:
  "list_all is_ascii cs \<Longrightarrow> fnv_loop h cs = fnv1a_spec_from h cs"
  by (induction cs arbitrary: h)
     (simp_all add: char_to_uint32_def prime_def is_ascii_def scast_ascii_eq_ucast)

text \<open>
  Claim C8, as stated, at a name with a byte above \<open>0x7F\<close>: the two bytes \<open>C3 A9\<close>
  (UTF-8 for a Latin small e with acute, which MSVC accepts in an identifier).
  The code XORs the accumulator with the sign-extended character \<open>0xFFFFFFC3\<close>, FNV-1a with
  the byte \<open>0xC3\<close>; the identifiers differ.
\<close>

theorem C8_counterexample_non_ascii_name:
  "get_method_id [0xC3, 0xA9] \<noteq> fnv1a_spec [0xC3, 0xA9]"
  by (simp add: get_method_id_def fnv_hash_def fnv1a_spec_def char_to_uint32_def prime_def)

text \<open>
  Claim C8, amended: for every method name made of ASCII bytes (each below \<open>0x80\<close>), the
  32-bit method identifier equals the FNV-1a hash of the bytes of the name: basis
  \<open>0x811C9DC5\<close>, prime \<open>0x01000193\<close>, for each byte XOR first and multiply after, modulo
  \<open>2 ^ 32\<close>.
\<close>

theorem C8_method_id_is_fnv1a_on_ascii:
  "list_all is_ascii nm \<Longrightarrow> get_method_id nm = fnv1a_spec nm"
  by (simp add: get_method_id_def fnv_hash_def fnv1a_spec_def fnv_loop_ascii)

text \<open>Claim C8 as amended, at the name \<^verbatim>\<open>sum\<close>, bytes \<open>73 75 6D\<close>: both sides are \<open>0xDD4E3AA8\<close>.\<close>

theorem C8_method_id_is_fnv1a_on_ascii_witness:
  "list_all is_ascii [0x73, 0x75, 0x6D] \<and>
   get_method_id [0x73, 0x75, 0x6D] = fnv1a_spec [0x73, 0x75, 0x6D] \<and>
   fnv1a_spec [0x73, 0x75, 0x6D] = 0xDD4E3AA8"
  using C8_method_id_is_fnv1a_on_ascii [of "[0x73, 0x75, 0x6D]"]
  by (simp add: is_ascii_def fnv1a_spec_def)


section \<open>Server marshaller: results\<close>











lemma dispatch_spec_unknown:
  "key \<notin> set (method_ids Methods) \<Longrightarrow> dispatch_spec Methods key data = Throws_hresult E_NOTIMPL"
proof -
  assume "key \<notin> set (method_ids Methods)"
  then have "find (\<lambda>M. get_method_id (m_name M) = key) Methods = None"
    by (auto simp add: find_None_iff method_ids_def)
  then show ?thesis by (simp add: dispatch_spec_def)
qed




section \<open>Connection: results\<close>

lemma word_of_le32: "word_of_le (le32 w) = w"
  apply (simp add: le32_def)
  apply (rule bit_word_eqI)
  subgoal for n
    by (cases "n < 8"; cases "n < 16"; cases "n < 24") (auto simp add: bit_simps)
  done

lemma word_of_le16: "word_of_le (le16 w) = w"
  apply (simp add: le16_def)
  apply (rule bit_word_eqI)
  subgoal for n
    by (cases "n < 8") (auto simp add: bit_simps)
  done


subsection \<open>Replies to a request\<close>

lemma execute_request_failure_pushes_one:
  assumes "ctype message \<noteq> void_request" and "\<not> cancel s"
    and "dispatch Methods (mid message) (payload message) = Throws_hresult e"
  shows "write_queue (fst (execute_request (Some Methods) message (s, fr))) =
         write_queue s @ [reply_to message response_error (le32 e)]"
  using assms by (simp add: execute_request_def Let_def push_def hr_of_outcome_def)

lemma execute_request_success_pushes_two:
  assumes "ctype message \<noteq> void_request" and "\<not> cancel s"
    and "dispatch Methods (mid message) (payload message) = Completes result"
  shows "write_queue (fst (execute_request (Some Methods) message (s, fr))) =
         write_queue s @ [reply_to message response result,
                          reply_to message response_error (le32 0)]"
  using assms by (simp add: execute_request_def Let_def push_def)

text \<open>
  Claim C1 at a request whose implementation succeeds. A started, not cancelled connection
  with a server for \<^verbatim>\<open>simple_sum\<close> and \<^verbatim>\<open>send_telemetry\<close> receives the request
  \<^verbatim>\<open>simple_sum(17, 42)\<close> with call identifier 7. \<^verbatim>\<open>execute_request\<close> pushes the
  \<^verbatim>\<open>response\<close> carrying 59 and then, falling through to the error block with \<^verbatim>\<open>hr = 0\<close>, a
  \<^verbatim>\<open>response_error\<close> carrying four zero bytes: two replies with call identifier 7, where
  the claim allows at most one.
\<close>

theorem C1_successful_request_gets_two_replies:
  "write_queue (fst (execute_request (Some [simple_sum, send_telemetry]) sum_request
     (started True, reader_frame0))) =
   [\<lparr>call_id = 7, ctype = response, mid = get_method_id (m_name simple_sum), payload = le32 59\<rparr>,
    \<lparr>call_id = 7, ctype = response_error, mid = get_method_id (m_name simple_sum),
       payload = [0, 0, 0, 0]\<rparr>]"
  by (simp add: execute_request_def sum_request_def started_def initial_def dispatch_def
      find_method_def build_method_map_def lower_bound_def simple_sum_def send_telemetry_def
      get_method_id_def fnv_hash_def char_to_uint32_def prime_def make_message_def le32_def
      dispatch_method_def push_def reply_to_def hr_of_outcome_def reader_frame0_def Let_def)

subsection \<open>Replies to a void request\<close>

text \<open>
  Claim C4: for every inbound \<^verbatim>\<open>void_request\<close> the reader step leaves the write queue as it
  was, whatever the server side does: the marshaller may be absent (\<open>None\<close>), the method
  identifier unknown, and decoding or the implementation of any method may complete or
  throw, since \<open>server\<close>, \<open>message\<close> and the state are arbitrary.
\<close>

theorem C4_void_request_produces_no_reply:
  "ctype message = void_request \<Longrightarrow>
   write_queue (fst (reader_step server (Inr message) st)) = write_queue (fst st)"
  by (auto simp add: reader_step_def execute_request_def Let_def split: option.splits prod.splits)

text \<open>
  Claim C4 at a void request for \<^verbatim>\<open>send_telemetry\<close>, whose implementation throws: the queue
  of the started connection stays empty.
\<close>

theorem C4_void_request_produces_no_reply_witness:
  "ctype (make_message 3 void_request (get_method_id (m_name send_telemetry)) []) = void_request \<and>
   write_queue (fst (reader_step (Some [simple_sum, send_telemetry])
     (Inr (make_message 3 void_request (get_method_id (m_name send_telemetry)) []))
     (started True, reader_frame0))) = []"
  using C4_void_request_produces_no_reply
    [of "make_message 3 void_request (get_method_id (m_name send_telemetry)) []"
        "Some [simple_sum, send_telemetry]" "(started True, reader_frame0)"]
  by (simp add: make_message_def started_def initial_def)

subsection \<open>Call identifiers past \<open>2 ^ 30\<close>\<close>

lemma void_calls_counter:
  "transport s \<Longrightarrow> \<not> cancel s \<Longrightarrow>
   \<exists>s'. void_calls n s = Inr s' \<and> last_call_id s' = last_call_id s + of_nat n \<and>
        transport s' \<and> \<not> cancel s' \<and> completions s' = completions s \<and>
        settled s' = settled s \<and> next_promise s' = next_promise s \<and> ndebug s' = ndebug s"
proof (induction n arbitrary: s)
  case 0
  then show ?case by simp
next
  case (Suc n)
  let ?s1 = "push (make_message (last_call_id s) void_request 0 [])
    (s\<lparr>last_call_id := last_call_id s + 1\<rparr>)"
  have step: "do_void_call 0 [] s = Inr ?s1"
    using Suc.prems by (simp add: do_void_call_def Let_def)
  have "transport ?s1" "\<not> cancel ?s1"
    using Suc.prems by (simp_all add: push_def)
  from Suc.IH [OF this] obtain s' where
    "void_calls n ?s1 = Inr s'" "last_call_id s' = last_call_id ?s1 + of_nat n"
    "transport s'" "\<not> cancel s'" "completions s' = completions ?s1"
    "settled s' = settled ?s1" "next_promise s' = next_promise ?s1" "ndebug s' = ndebug ?s1"
    by blast
  then show ?case using step by (simp add: push_def)
qed

text \<open>
  Claim C3 after the counter has passed \<open>2 ^ 30\<close>. On a started connection \<open>2 ^ 30\<close>
  fire-and-forget calls bring \<^verbatim>\<open>last_call_id\<close> to \<open>0x40000000\<close>. The next \<^verbatim>\<open>do_call\<close>
  registers its promise under the key \<open>0x40000000\<close>, while the 30-bit header field of the
  request is 0. The peer's \<^verbatim>\<open>response\<close> echoes the header; the reader looks up key 0, finds
  nothing, and leaves the connection as it was: the promise stays in the table and receives
  nothing.
\<close>

theorem C3_reply_after_wrap_is_dropped:
  "case void_calls (2 ^ 30) (started True) of
     Inl _ \<Rightarrow> False
   | Inr s \<Rightarrow>
       (case do_call 1 [] s of
          Inl _ \<Rightarrow> False
        | Inr (pr, s1) \<Rightarrow>
            let req = last (write_queue s1);
                s2 = on_reply (reply_to req response [59, 0, 0, 0]) s1
            in last_call_id s = 0x40000000 \<and> call_id req = 0 \<and> ctype req = request \<and>
               completions s1 = [(0x40000000, pr)] \<and>
               s2 = s1 \<and> settled s2 pr = [])"
proof -
  have "transport (started True)" "\<not> cancel (started True)"
    by (simp_all add: started_def initial_def)
  from void_calls_counter [OF this, of "2 ^ 30"] obtain s where
    s: "void_calls (2 ^ 30) (started True) = Inr s"
      "last_call_id s = last_call_id (started True) + of_nat (2 ^ 30)"
      "transport s" "\<not> cancel s" "completions s = completions (started True)"
      "settled s = settled (started True)" "next_promise s = next_promise (started True)"
    by blast
  have cid: "last_call_id s = 0x40000000"
    using s(2) by (simp add: started_def initial_def)
  have tbl: "completions s = []" and st: "settled s = (\<lambda>_. [])"
    using s(5,6) by (simp_all add: started_def initial_def)
  have call: "do_call 1 [] s =
      Inr (next_promise s, push (make_message 0x40000000 request 1 [])
        (s\<lparr>last_call_id := 0x40000001, next_promise := Suc (next_promise s),
           completions := [(0x40000000, next_promise s)]\<rparr>))"
    using s(3,4) by (simp add: do_call_def Let_def cid tbl emplace_def)
  show ?thesis
    apply (subst s(1))
    apply (simp only: sum.case)
    apply (subst call)
    apply (simp add: cid st push_def make_message_def on_reply_def reply_to_def)
    done
qed

subsection \<open>Calls after stop\<close>

lemma call_on_cancelled_connection:
  "cancel s \<Longrightarrow> transport s \<Longrightarrow>
   do_void_call nm p s = Inl Operation_cancelled \<and> do_call nm p s = Inl Operation_cancelled"
  by (simp add: do_void_call_def do_call_def)

text \<open>
  Claim C5 after \<^verbatim>\<open>stop\<close> has returned on a started connection. \<^verbatim>\<open>stop\<close> ends with
  \<^verbatim>\<open>cancel = {}\<close>, so the connection is no longer cancelled. In a release build the
  fire-and-forget call passes the \<^verbatim>\<open>is_cancelled\<close> test, takes call identifier 0 and pushes
  a \<^verbatim>\<open>void_request\<close> on a queue that no writer drains; the awaited call registers a promise,
  pushes a \<^verbatim>\<open>request\<close>, and its promise receives nothing. In a debug build both stop at
  \<^verbatim>\<open>assert(transport)\<close>. Neither fails with \<^verbatim>\<open>operation_cancelled\<close>.
\<close>

theorem C5_calls_after_stop_are_not_cancelled:
  "do_void_call 1 [] (stop (started True)) =
     Inr ((stop (started True))\<lparr>last_call_id := 1,
            write_queue := [make_message 0 void_request 1 []]\<rparr>) \<and>
   do_void_call 1 [] (stop (started False)) = Inl Assertion_failed \<and>
   (case do_call 1 [] (stop (started True)) of
      Inl _ \<Rightarrow> False
    | Inr (pr, s) \<Rightarrow> settled s pr = [] \<and> completions s = [(0, pr)] \<and>
        write_queue s = [make_message 0 request 1 []]) \<and>
   do_call 1 [] (stop (started False)) = Inl Assertion_failed"
  by (simp add: do_void_call_def do_call_def stop_def started_def initial_def
      error_on_background_def Let_def push_def emplace_def)

subsection \<open>The pending-call table\<close>

lemma cancel_all_eq:
  "cancel_all cs s = s\<lparr>settled := (\<lambda>p. settled s p @
      replicate (count_list (map snd cs) p) (Exception Operation_cancelled))\<rparr>"
proof (induction cs arbitrary: s)
  case Nil
  then show ?case by simp
next
  case (Cons c cs)
  show ?case
    by (simp add: Cons.IH settle_def fun_eq_iff replicate_app_Cons_same)
qed

lemma table_ok_frame:
  "table_ok s \<Longrightarrow> completions s' = completions s \<Longrightarrow> settled s' = settled s \<Longrightarrow>
   next_promise s' = next_promise s \<Longrightarrow> table_ok s'"
  by (simp add: table_ok_def)

lemma execute_request_fields:
  "completions (fst (execute_request server m st)) = completions (fst st)"
  "settled (fst (execute_request server m st)) = settled (fst st)"
  "next_promise (fst (execute_request server m st)) = next_promise (fst st)"
  by (auto simp add: execute_request_def Let_def push_def
      split: option.splits prod.splits outcome.splits)

lemma table_ok_initial: "table_ok (initial nd)"
  by (simp add: table_ok_def initial_def)

lemma table_ok_start: "table_ok s \<Longrightarrow> start s = Inr s' \<Longrightarrow> table_ok s'"
  by (erule table_ok_frame) (auto simp add: start_def split: if_splits)

lemma table_ok_stop: "table_ok s \<Longrightarrow> table_ok (stop s)"
proof -
  assume ok: "table_ok s"
  have "count_list (map snd (completions s)) p = 0" if "next_promise s \<le> p" for p
    using ok that by (auto simp add: table_ok_def count_list_0_iff)
  then show ?thesis
    using ok by (simp add: table_ok_def stop_def Let_def cancel_all_eq error_on_background_def)
qed

lemma table_ok_do_void_call: "table_ok s \<Longrightarrow> do_void_call nm p s = Inr s' \<Longrightarrow> table_ok s'"
  by (erule table_ok_frame) (auto simp add: do_void_call_def Let_def push_def split: if_splits)

lemma distinct_map_insort_key:
  "distinct (map g (insort_key f x xs)) \<longleftrightarrow> g x \<notin> g ` set xs \<and> distinct (map g xs)"
  by (induction xs) (auto simp add: set_insort_key)

lemma table_ok_do_call:
  assumes ok: "table_ok s" and call: "do_call nm p s = Inr (pr, s')"
  shows "table_ok s'"
proof -
  from call have np: "next_promise s' = Suc (next_promise s)"
    and st: "settled s' = settled s"
    and cs: "completions s' = emplace (last_call_id s) (next_promise s) (completions s)"
    by (auto simp add: do_call_def Let_def push_def split: if_splits)
  have fresh: "next_promise s \<notin> snd ` set (completions s)"
    using ok by (auto simp add: table_ok_def)
  have unset: "settled s (next_promise s) = []"
    using ok by (simp add: table_ok_def)
  show ?thesis
  proof (cases "last_call_id s \<in> fst ` set (completions s)")
    case True
    then have "completions s' = completions s" by (simp add: cs emplace_def)
    then show ?thesis
      using ok np st by (auto simp add: table_ok_def less_Suc_eq)
  next
    case False
    then have "completions s' = insort_key fst (last_call_id s, next_promise s) (completions s)"
      by (simp add: cs emplace_def)
    then show ?thesis
      using ok np st False fresh unset
      by (auto simp add: table_ok_def distinct_map_insort_key set_insort_key less_Suc_eq)
  qed
qed

lemma same_promise_same_key:
  "distinct (map snd cs) \<Longrightarrow> (k, p) \<in> set cs \<Longrightarrow> (k', p) \<in> set cs \<Longrightarrow> k = k'"
  by (induction cs) force+

lemma table_ok_on_reply:
  assumes ok: "table_ok s"
  shows "table_ok (on_reply m s)"
proof (cases "map_of (completions s) (ucast (call_id m))")
  case None
  then show ?thesis using ok by (simp add: on_reply_def)
next
  case (Some pr)
  let ?k = "ucast (call_id m) :: uint32"
  let ?s' = "on_reply m s"
  have mem: "(?k, pr) \<in> set (completions s)"
    using Some by (rule map_of_SomeD)
  have gone: "pr \<notin> snd ` set (erase ?k (completions s))"
    using ok mem by (auto simp add: table_ok_def erase_def dest: same_promise_same_key)
  have old: "pr < next_promise s"
    using ok mem by (force simp add: table_ok_def)
  have sub: "set (erase ?k (completions s)) \<subseteq> set (completions s)"
    by (auto simp add: erase_def)
  have c': "completions ?s' = erase ?k (completions s)"
    and st': "settled ?s' = (settled s)(pr := settled s pr @ [reply_completion m])"
    and np': "next_promise ?s' = next_promise s"
    by (simp_all add: on_reply_def Some settle_def)
  have d1: "distinct (map fst (completions ?s'))" and d2: "distinct (map snd (completions ?s'))"
    using ok by (simp_all add: c' erase_def distinct_map_filter table_ok_def)
  have reg: "\<forall>p \<in> snd ` set (completions ?s'). p < next_promise ?s' \<and> settled ?s' p = []"
  proof
    fix p
    assume p: "p \<in> snd ` set (completions ?s')"
    then have "p \<noteq> pr" using gone by (auto simp add: c')
    moreover from p sub have "p \<in> snd ` set (completions s)" by (auto simp add: c')
    ultimately show "p < next_promise ?s' \<and> settled ?s' p = []"
      using ok by (auto simp add: st' np' table_ok_def)
  qed
  have new: "\<forall>p. next_promise ?s' \<le> p \<longrightarrow> settled ?s' p = []"
    using ok old by (auto simp add: st' np' table_ok_def)
  show ?thesis
    unfolding table_ok_def using d1 d2 reg new by blast
qed

lemma table_ok_reader_step:
  assumes ok: "table_ok s" and step: "reader_step server rd (s, fr) = (s', fr')"
  shows "table_ok s'"
proof (cases rd)
  case (Inl e)
  with step have "s' = error_on_background e on_receive (s\<lparr>cancel := True\<rparr>)"
    by (simp add: reader_step_def)
  then show ?thesis
    using ok by (auto simp add: error_on_background_def intro: table_ok_frame)
next
  case (Inr message)
  show ?thesis
  proof (cases "ctype message = response \<or> ctype message = response_error")
    case True
    with step Inr have "s' = on_reply message s" by (simp add: reader_step_def)
    then show ?thesis using ok by (simp add: table_ok_on_reply)
  next
    case False
    with step Inr have "s' = fst (execute_request server message (s, fr))"
      by (simp add: reader_step_def)
    then show ?thesis
      using ok by (auto simp add: execute_request_fields intro: table_ok_frame)
  qed
qed

lemma table_ok_writer_step: "table_ok s \<Longrightarrow> table_ok (writer_step wr s)"
  by (erule table_ok_frame)
     (auto simp add: writer_step_def error_on_background_def split: list.splits option.splits)

lemma table_ok_on_error: "table_ok s \<Longrightarrow> table_ok (on_error s)"
  by (erule table_ok_frame) (auto simp add: on_error_def split: option.splits)

lemma reachable_table_ok: "reachable server s \<Longrightarrow> table_ok s"
proof (induction rule: reachable.induct)
  case (r_initial nd)
  show ?case by (rule table_ok_initial)
next
  case (r_start s s')
  then show ?case by (auto intro: table_ok_start)
next
  case (r_stop s)
  then show ?case by (simp add: table_ok_stop)
next
  case (r_call s nm p pr s')
  then show ?case by (auto intro: table_ok_do_call)
next
  case (r_void_call s nm p s')
  then show ?case by (auto intro: table_ok_do_void_call)
next
  case (r_reader s rd fr s' fr')
  then show ?case by (auto intro: table_ok_reader_step)
next
  case (r_writer s wr)
  then show ?case by (simp add: table_ok_writer_step)
next
  case (r_on_error s)
  then show ?case by (simp add: table_ok_on_error)
qed

text \<open>Below \<open>2 ^ 30\<close> the key and the header field agree, and the reply reaches its promise.\<close>

lemma reply_before_wrap_is_delivered:
  assumes "last_call_id s < 2 ^ 30" and "transport s" and "\<not> cancel s"
    and "last_call_id s \<notin> fst ` set (completions s)"
    and "distinct (map fst (completions s))"
    and "do_call nm p s = Inr (pr, s1)"
    and "call_id m = call_id (last (write_queue s1))"
  shows "settled (on_reply m s1) pr = settled s pr @ [reply_completion m]"
proof -
  have "take_bit 30 (last_call_id s) = last_call_id s"
    using assms(1) by (simp add: take_bit_eq_mask less_mask_eq)
  then have key: "(ucast (ucast (last_call_id s) :: 30 word) :: uint32) = last_call_id s"
    by (simp add: unsigned_ucast_eq)
  have pr: "pr = next_promise s"
    and s1: "s1 = push (make_message (last_call_id s) request nm p)
      (s\<lparr>last_call_id := last_call_id s + 1, next_promise := Suc (next_promise s),
         completions := insort_key fst (last_call_id s, next_promise s) (completions s)\<rparr>)"
    using assms(2,3,4,6) by (auto simp add: do_call_def Let_def emplace_def)
  have "distinct (map fst (completions s1))"
    using assms(4,5) by (simp add: s1 push_def distinct_map_insort_key)
  moreover have "(last_call_id s, pr) \<in> set (completions s1)"
    by (simp add: s1 pr push_def set_insort_key)
  ultimately have "map_of (completions s1) (last_call_id s) = Some pr"
    by (rule map_of_is_SomeI)
  moreover have "ucast (call_id m) = last_call_id s"
    using key by (simp add: assms(7) s1 push_def make_message_def)
  ultimately show ?thesis
    by (simp add: on_reply_def settle_def s1 push_def)
qed

lemma count_list_distinct:
  "distinct xs \<Longrightarrow> x \<in> set xs \<Longrightarrow> count_list xs x = 1"
  by (induction xs) auto

text \<open>
  What \<^verbatim>\<open>stop\<close> does for the calls that are in the table: in any state the connection can
  reach, \<^verbatim>\<open>stop\<close> on a running connection empties the table, every promise that was in it
  ends with exactly one completion in all, the exception \<^verbatim>\<open>operation_cancelled\<close>, and no
  other promise receives anything.
\<close>

lemma stop_cancels_each_registered_call_once:
  assumes "reachable server s" and "running s"
  shows "completions (stop s) = [] \<and>
         (\<forall>p \<in> snd ` set (completions s). settled (stop s) p = [Exception Operation_cancelled]) \<and>
         (\<forall>p. p \<notin> snd ` set (completions s) \<longrightarrow> settled (stop s) p = settled s p)"
proof -
  have ok: "table_ok s" using assms(1) by (rule reachable_table_ok)
  have one: "count_list (map snd (completions s)) p = 1" if "p \<in> snd ` set (completions s)" for p
    using ok that by (simp add: table_ok_def count_list_distinct)
  show ?thesis
    using ok assms(2) one
    by (auto simp add: stop_def Let_def cancel_all_eq error_on_background_def table_ok_def)
qed




section \<open>Serializer: results\<close>

lemma length_le32 [simp]: "length (le32 w) = 4" by (simp add: le32_def)
lemma length_le16 [simp]: "length (le16 w) = 2" by (simp add: le16_def)

lemma read_raw_prefix:
  assumes "unread r = bs @ rest"
  shows "read_raw (length bs) r = (bs, r\<lparr>it := it r + length bs\<rparr>)"
proof -
  have d: "drop (it r) (range r) = bs @ rest" using assms by (simp add: unread_def)
  have "map (memory r) [it r ..< it r + length bs] = bs"
  proof (rule nth_equalityI)
    show "length (map (memory r) [it r ..< it r + length bs]) = length bs" by simp
  next
    fix i
    assume "i < length (map (memory r) [it r ..< it r + length bs])"
    then have i: "i < length bs" by simp
    have "length (drop (it r) (range r)) = length bs + length rest" using d by simp
    then have lt: "it r + i < length (range r)" using i by simp
    have "(drop (it r) (range r)) ! i = bs ! i" using d i by (simp add: nth_append)
    then have "range r ! (it r + i) = bs ! i" using lt by simp
    then show "map (memory r) [it r ..< it r + length bs] ! i = bs ! i"
      using i lt by (simp add: memory_def)
  qed
  then show ?thesis by (simp add: read_raw_def)
qed


lemma read_uint32_prefix:
  "unread r = le32 w @ rest \<Longrightarrow> read_uint32 r = (w, r\<lparr>it := it r + 4\<rparr>)"
  using read_raw_prefix [of r "le32 w" rest] by (simp add: read_uint32_def word_of_le32)










text \<open>
  \<^verbatim>\<open>get_remaining\<close> and the bytes ahead: with the cursor inside a span of fewer than
  \<open>2 ^ 64\<close> bytes the two agree; and whatever \<^verbatim>\<open>get_remaining\<close> begins with is what the
  primitive read returns.
\<close>

lemma get_remaining_inside:
  assumes "it r \<le> length (range r)" and "length (range r) < 2 ^ 64"
  shows "get_remaining r = unread r"
proof -
  have "0 \<le> int (length (range r)) - int (it r)" using assms(1) by simp
  moreover have "int (length (range r)) - int (it r) < 2 ^ 64"
  proof -
    have "int (length (range r)) < int (2 ^ 64)"
      using assms(2) by (simp only: of_nat_less_iff)
    also have "int (2 ^ 64) = 2 ^ 64" by simp
    finally show ?thesis by simp
  qed
  ultimately have "(int (length (range r)) - int (it r)) mod 2 ^ 64 =
      int (length (range r)) - int (it r)"
    by (rule mod_pos_pos_trivial)
  then have sz: "it r + nat ((int (length (range r)) - int (it r)) mod 2 ^ 64) = length (range r)"
    using assms(1) by simp
  have "map (memory r) [it r ..< length (range r)] = drop (it r) (range r)"
    by (rule nth_equalityI) (auto simp add: memory_def)
  then show ?thesis by (simp only: get_remaining_def unread_def sz)
qed

lemma read_raw_remaining:
  assumes "get_remaining r = bs @ rest"
  shows "read_raw (length bs) r = (bs, r\<lparr>it := it r + length bs\<rparr>)"
proof -
  define sz where "sz = nat ((int (length (range r)) - int (it r)) mod 2 ^ 64)"
  have m: "map (memory r) [it r ..< it r + sz] = bs @ rest"
    using assms by (simp only: get_remaining_def sz_def)
  then have "length (map (memory r) [it r ..< it r + sz]) = length (bs @ rest)" by (rule arg_cong)
  then have le: "length bs \<le> sz" by simp
  have "take (length bs) (map (memory r) [it r ..< it r + sz]) = bs"
    using m by simp
  moreover have "take (length bs) (map (memory r) [it r ..< it r + sz]) =
      map (memory r) [it r ..< it r + length bs]"
    using le by (simp add: take_map)
  ultimately show ?thesis by (simp add: read_raw_def)
qed

lemma read_uint16_remaining:
  "get_remaining r = le16 w @ rest \<Longrightarrow> read_uint16 r = (w, r\<lparr>it := it r + 2\<rparr>)"
  using read_raw_remaining [of r "le16 w" rest] by (simp add: read_uint16_def word_of_le16)

lemma read_alt_nth:
  "read_alt ts i r = (if i < length ts then read (ts ! i) r else Undefined)"
proof (induction ts arbitrary: i)
  case Nil
  show ?case by simp
next
  case (Cons t ts)
  show ?case by (cases i) (simp_all add: Cons.IH)
qed

lemma never_raised:
  fixes r rf re ra :: "'s reader"
  shows "read t r \<noteq> Raised e"
  and "read_fields ts rf \<noteq> Raised e"
  and "read_elems te n re \<noteq> Raised e"
  and "read_alt ta i ra \<noteq> Raised e"
proof (induction t r and ts rf and te n re and ta i ra
    rule: read_read_fields_read_elems_read_alt.induct)
  case (5 t r)
  then show ?case
    by (cases "read_uint32 r"; cases "read_elems t (unat (fst (read_uint32 r))) (snd (read_uint32 r))")
       auto
next
  case (6 t d r)
  then show ?case
    by (cases "read_bool r"; cases "read t (snd (read_bool r))") auto
next
  case (7 t e r)
  then show ?case
    by (cases "read_bool r"; cases "read t (snd (read_bool r))"; cases "read e (snd (read_bool r))")
       auto
next
  case (8 ta tb r)
  show ?case
  proof (cases "read ta r")
    case (Done p)
    then show ?thesis using "8.IH"(2) [of "snd p"]
      by (cases p; cases "read tb (snd p)") auto
  qed (use "8.IH"(1) in simp_all)
next
  case (9 ts r)
  then show ?case by (cases "read_fields ts r") auto
next
  case (10 ts r)
  then show ?case by (cases "read_fields ts r") auto
next
  case (11 ts r)
  then show ?case
    by (cases "read_uint16 r"; cases "read_alt ts (unat (fst (read_uint16 r))) (snd (read_uint16 r))")
       auto
next
  case (13 t ts r)
  show ?case
  proof (cases "read t r")
    case (Done p)
    then show ?thesis using "13.IH"(2) [of "snd p"]
      by (cases p; cases "read_fields ts (snd p)") auto
  qed (use "13.IH"(1) in simp_all)
next
  case (15 t count r)
  show ?case
  proof (cases "read t r")
    case (Done p)
    then show ?thesis using "15.IH"(2) [of "snd p"]
      by (cases p; cases "read_elems t count (snd p)") auto
  qed (use "15.IH"(1) in simp_all)
qed (simp_all add: Let_def split: prod.splits)

lemma window_past_end:
  assumes "k \<le> length (range r)"
  shows "map (memory r) [k ..< k + n] =
         take n (drop k (range r)) @ map (beyond r) [0 ..< n - (length (range r) - k)]"
proof (rule nth_equalityI)
  show "length (map (memory r) [k ..< k + n]) =
        length (take n (drop k (range r)) @ map (beyond r) [0 ..< n - (length (range r) - k)])"
    using assms by auto
next
  fix i
  assume "i < length (map (memory r) [k ..< k + n])"
  then have i: "i < n" by simp
  show "map (memory r) [k ..< k + n] ! i =
        (take n (drop k (range r)) @ map (beyond r) [0 ..< n - (length (range r) - k)]) ! i"
  proof (cases "k + i < length (range r)")
    case True
    then have "i < length (range r) - k" by simp
    then show ?thesis using True i by (simp add: memory_def nth_append)
  next
    case False
    then have "\<not> i < length (range r) - k" by simp
    then show ?thesis using False i assms by (simp add: memory_def nth_append add.commute)
  qed
qed

lemma chop_bytes: "length bs = count \<Longrightarrow> chop 1 count bs = map (\<lambda>b. [b]) bs"
proof (induction count arbitrary: bs)
  case 0
  then show ?case by simp
next
  case (Suc count)
  then obtain b bs' where "bs = b # bs'" "length bs' = count" by (cases bs) simp_all
  then show ?case using Suc.IH [of bs'] by simp
qed


subsection \<open>Round trip\<close>




subsection \<open>Variant tags\<close>

text \<open>
  Claim C9, as stated, at the payload \<open>02 00 09\<close> decoded as a variant of two alternatives:
  the tag read is 2, \<^verbatim>\<open>mp_with_index<2>\<close> is called outside its precondition, and the
  result is undefined behaviour, not an exception.
\<close>

theorem C9_counterexample_tag_out_of_range: "read (TVariant [TTrivial 1, TTrivial 4]) (make_reader [2, 0, 9] (\<lambda>_. 0) ()) = Undefined"
  by (simp add: make_reader_def read_uint16_def read_raw_def memory_def read_alt_nth)

text \<open>
  Claim C9, amended: decoding a variant over the alternatives \<open>ts\<close> reads a 16-bit tag
  index; when the index is less than the number of alternatives it decodes the alternative
  of that index and produces the variant holding it; when the index is greater than or equal
  to the number of alternatives no error is raised: the behaviour is undefined.
\<close>

theorem C9_variant_decoding:
  "read (TVariant ts) r =
    (let (index, r1) = read_uint16 r
     in if unat index < length ts
        then bind_read (read (ts ! unat index) r1) (\<lambda>(v, r2). Done (VVariant (unat index) v, r2))
        else Undefined) \<and>
   (get_remaining r = le16 tag @ rest \<longrightarrow>
      read (TVariant ts) r =
        (if unat tag < length ts
         then bind_read (read (ts ! unat tag) (r\<lparr>it := it r + 2\<rparr>))
                (\<lambda>(v, r2). Done (VVariant (unat tag) v, r2))
         else Undefined))"
proof (intro conjI impI)
  show "read (TVariant ts) r =
    (let (index, r1) = read_uint16 r
     in if unat index < length ts
        then bind_read (read (ts ! unat index) r1) (\<lambda>(v, r2). Done (VVariant (unat index) v, r2))
        else Undefined)"
    by (simp add: read_alt_nth split: prod.splits)
next
  assume "get_remaining r = le16 tag @ rest"
  then have "read_uint16 r = (tag, r\<lparr>it := it r + 2\<rparr>)"
    by (rule read_uint16_remaining)
  then show "read (TVariant ts) r =
        (if unat tag < length ts
         then bind_read (read (ts ! unat tag) (r\<lparr>it := it r + 2\<rparr>))
                (\<lambda>(v, r2). Done (VVariant (unat tag) v, r2))
         else Undefined)"
    by (simp add: read_alt_nth)
qed

text \<open>Claim C9 as amended, on two payloads: tag 1 selects the second alternative; tag 2 is out of range.\<close>

theorem C9_variant_decoding_witness:
  "get_remaining (make_reader [1, 0, 7, 8] (\<lambda>_. 0) ()) = le16 1 @ [7, 8] \<and>
   read (TVariant [TTrivial 1, TTrivial 2]) (make_reader [1, 0, 7, 8] (\<lambda>_. 0) ()) =
     Done (VVariant 1 (VTrivial [7, 8]), (make_reader [1, 0, 7, 8] (\<lambda>_. 0) ())\<lparr>it := 4\<rparr>) \<and>
   get_remaining (make_reader [2, 0, 7, 8] (\<lambda>_. 0) ()) = le16 2 @ [7, 8] \<and>
   read (TVariant [TTrivial 1, TTrivial 2]) (make_reader [2, 0, 7, 8] (\<lambda>_. 0) ()) = Undefined"
proof -
  let ?ts = "[TTrivial 1, TTrivial 2]"
  let ?r = "make_reader [1, 0, 7, 8] (\<lambda>_. 0) ()"
  let ?q = "make_reader [2, 0, 7, 8] (\<lambda>_. 0) ()"
  have a: "get_remaining ?r = le16 1 @ [7, 8]" and b: "get_remaining ?q = le16 2 @ [7, 8]"
    by (simp_all add: get_remaining_def make_reader_def memory_def le16_def upt_rec)
  from C9_variant_decoding [of ?ts ?r 1 "[7, 8]"] a
  have "read (TVariant ?ts) ?r =
      (if unat (1 :: 16 word) < length ?ts
       then bind_read (read (?ts ! unat (1 :: 16 word)) (?r\<lparr>it := it ?r + 2\<rparr>))
              (\<lambda>(v, r2). Done (VVariant (unat (1 :: 16 word)) v, r2))
       else Undefined)"
    by blast
  also have "\<dots> = Done (VVariant 1 (VTrivial [7, 8]), ?r\<lparr>it := 4\<rparr>)"
    by (simp add: make_reader_def read_raw_def memory_def)
  finally have one: "read (TVariant ?ts) ?r = Done (VVariant 1 (VTrivial [7, 8]), ?r\<lparr>it := 4\<rparr>)" .
  from C9_variant_decoding [of ?ts ?q 2 "[7, 8]"] b
  have "read (TVariant ?ts) ?q =
      (if unat (2 :: 16 word) < length ?ts
       then bind_read (read (?ts ! unat (2 :: 16 word)) (?q\<lparr>it := it ?q + 2\<rparr>))
              (\<lambda>(v, r2). Done (VVariant (unat (2 :: 16 word)) v, r2))
       else Undefined)"
    by blast
  also have "\<dots> = Undefined"
    by simp
  finally have two: "read (TVariant ?ts) ?q = Undefined" .
  from a one b two show ?thesis by blast
qed

subsection \<open>Reading past the end\<close>

text \<open>
  Claim C10: no decoding ever reports an error; a fixed-size value of \<open>n\<close> bytes decoded
  from a shorter payload is completed with the bytes that lie behind the payload in memory,
  and the cursor ends past the end of the span; a string whose 32-bit length prefix exceeds
  the bytes remaining is filled up the same way.
\<close>

theorem C10_reader_reads_past_the_end:
  "read t r \<noteq> Raised e \<and>
   (length data < n \<longrightarrow>
      read (TTrivial n) (make_reader data mem S) =
        Done (VTrivial (data @ map mem [0 ..< n - length data]),
              (make_reader data mem S)\<lparr>it := n\<rparr>)) \<and>
   (length body < unat c \<longrightarrow>
      read (TBulk 1) (make_reader (le32 c @ body) mem S) =
        Done (VBulk (map (\<lambda>b. [b]) (body @ map mem [0 ..< unat c - length body])),
              (make_reader (le32 c @ body) mem S)\<lparr>it := 4 + unat c\<rparr>))"
proof (intro conjI impI)
  show "read t r \<noteq> Raised e" by (rule never_raised)
next
  assume "length data < n"
  then show "read (TTrivial n) (make_reader data mem S) =
        Done (VTrivial (data @ map mem [0 ..< n - length data]),
              (make_reader data mem S)\<lparr>it := n\<rparr>)"
    using window_past_end [of 0 "make_reader data mem S" n]
    by (simp add: read_raw_def make_reader_def)
next
  assume short: "length body < unat c"
  let ?r = "make_reader (le32 c @ body) mem S"
  let ?r1 = "?r\<lparr>it := 4\<rparr>"
  have c: "read_uint32 ?r = (c, ?r1)"
    using read_uint32_prefix [of ?r c body] by (simp add: unread_def make_reader_def)
  have w: "map (memory ?r1) [4 ..< 4 + unat c] = body @ map mem [0 ..< unat c - length body]"
    using window_past_end [of 4 ?r1 "unat c"] short by (simp add: make_reader_def)
  have b: "read_raw (unat c) ?r1 =
      (body @ map mem [0 ..< unat c - length body], ?r\<lparr>it := 4 + unat c\<rparr>)"
    using w by (simp add: read_raw_def make_reader_def)
  have l: "length (body @ map mem [0 ..< unat c - length body]) = unat c"
    using short by simp
  show "read (TBulk 1) ?r =
        Done (VBulk (map (\<lambda>b. [b]) (body @ map mem [0 ..< unat c - length body])),
              ?r\<lparr>it := 4 + unat c\<rparr>)"
    using chop_bytes [OF l] by (simp add: c b)
qed

text \<open>
  Claim C10 on a two-byte payload decoded as a 4-byte integer, and on a string with prefix 5
  and two characters: the bytes \<open>A0\<close>, \<open>A1\<close>, \<open>A2\<close> come from behind the payload.
\<close>

theorem C10_reader_reads_past_the_end_witness:
  "length [1, 2 :: byte] < 4 \<and>
   read (TTrivial 4) (make_reader [1, 2] (\<lambda>i. 0xA0 + of_nat i) ()) =
     Done (VTrivial [1, 2, 0xA0, 0xA1],
           (make_reader [1, 2] (\<lambda>i. 0xA0 + of_nat i) ())\<lparr>it := 4\<rparr>) \<and>
   length [0x41, 0x42 :: byte] < unat (5 :: 32 word) \<and>
   read (TBulk 1) (make_reader (le32 5 @ [0x41, 0x42]) (\<lambda>i. 0xA0 + of_nat i) ()) =
     Done (VBulk [[0x41], [0x42], [0xA0], [0xA1], [0xA2]],
           (make_reader (le32 5 @ [0x41, 0x42]) (\<lambda>i. 0xA0 + of_nat i) ())\<lparr>it := 9\<rparr>)"
proof -
  let ?mem = "\<lambda>i :: nat. 0xA0 + of_nat i :: byte"
  have a: "length [1, 2 :: byte] < 4" and b: "length [0x41, 0x42 :: byte] < unat (5 :: 32 word)"
    by simp_all
  note th = C10_reader_reads_past_the_end
    [of "TTrivial 4" "make_reader [1, 2] ?mem ()" 0 "[1, 2]" 4 ?mem "()" "[0x41, 0x42]" 5]
  from th a have "read (TTrivial 4) (make_reader [1, 2] ?mem ()) =
      Done (VTrivial ([1, 2] @ map ?mem [0 ..< 4 - length [1, 2 :: byte]]),
            (make_reader [1, 2] ?mem ())\<lparr>it := 4\<rparr>)"
    by blast
  moreover have "[1, 2] @ map ?mem [0 ..< 4 - length [1, 2 :: byte]] = [1, 2, 0xA0, 0xA1]"
    by (simp add: upt_rec)
  ultimately have one: "read (TTrivial 4) (make_reader [1, 2] ?mem ()) =
      Done (VTrivial [1, 2, 0xA0, 0xA1], (make_reader [1, 2] ?mem ())\<lparr>it := 4\<rparr>)"
    by simp
  from th b have "read (TBulk 1) (make_reader (le32 5 @ [0x41, 0x42]) ?mem ()) =
      Done (VBulk (map (\<lambda>b. [b])
              ([0x41, 0x42] @ map ?mem [0 ..< unat (5 :: 32 word) - length [0x41, 0x42 :: byte]])),
            (make_reader (le32 5 @ [0x41, 0x42]) ?mem ())\<lparr>it := 4 + unat (5 :: 32 word)\<rparr>)"
    by blast
  moreover have "map (\<lambda>b. [b])
      ([0x41, 0x42] @ map ?mem [0 ..< unat (5 :: 32 word) - length [0x41, 0x42 :: byte]]) =
      [[0x41], [0x42], [0xA0], [0xA1], [0xA2]]"
    by (simp add: upt_rec)
  ultimately have two: "read (TBulk 1) (make_reader (le32 5 @ [0x41, 0x42]) ?mem ()) =
      Done (VBulk [[0x41], [0x42], [0xA0], [0xA1], [0xA2]],
            (make_reader (le32 5 @ [0x41, 0x42]) ?mem ())\<lparr>it := 9\<rparr>)"
    by simp
  from a one b two show ?thesis by blast
qed

end
